theory Spec2Isabelle
  imports Main
begin

section \<open>The CSS selector builder of \<^verbatim>\<open>src/05-objects-tasks.js\<close>\<close>

text \<open>
  The source has one class, \<^verbatim>\<open>CurrentBuilder\<close>, whose methods mutate the receiver and
  either return it or throw, and one facade object, \<^verbatim>\<open>cssSelectorBuilder\<close>, whose
  functions allocate builders. Both \<^verbatim>\<open>combine\<close> functions call \<^verbatim>\<open>stringify\<close> on two
  builders handed in by reference, so objects live in a store and are named by references.

  A method body is a function from the receiver's state to a result and the receiver's new
  state. A \<^verbatim>\<open>throw\<close> is the result \<open>Inl e\<close>; the state next to it is what the object
  holds when the exception leaves the method, since JavaScript undoes nothing.
\<close>

subsection \<open>Values and errors\<close>

text \<open>
  \<^verbatim>\<open>throw Error(msg)\<close> is \<open>Error msg\<close>. \<open>TypeError\<close> is what JavaScript throws when a
  method is called on a value that has no such method; in the model that is a reference
  that designates no builder of the store.
\<close>

datatype js_error = Error string | TypeError

text \<open>The fields set by the constructor. \<open>order\<close> is a number or \<^verbatim>\<open>undefined\<close> (\<open>None\<close>).\<close>

record CurrentBuilder =
  stack :: "string list"
  singleStack :: "string list"
  order :: "int option"

type_synonym 'a method_body = "CurrentBuilder \<Rightarrow> (js_error + 'a) \<times> CurrentBuilder"

text \<open>\<^verbatim>\<open>Array.prototype.indexOf\<close>: the first index holding the value, or \<open>-1\<close>.\<close>

fun indexOf :: "'a list \<Rightarrow> 'a \<Rightarrow> int" where
  "indexOf [] v = - 1"
| "indexOf (x # xs) v =
     (if x = v then 0 else (let i = indexOf xs v in if i = - 1 then - 1 else i + 1))"

text \<open>
  The comparison \<^verbatim>\<open>value < this.order\<close>: with \<^verbatim>\<open>undefined\<close> on the right the operand
  converts to NaN and the comparison is false.
\<close>

fun js_less :: "int \<Rightarrow> int option \<Rightarrow> bool" where
  "js_less v None = False"
| "js_less v (Some r) = (v < r)"

text \<open>\<^verbatim>\<open>if (id)\<close> on a string or \<^verbatim>\<open>undefined\<close>: only a non-empty string is truthy.\<close>

fun truthy :: "string option \<Rightarrow> bool" where
  "truthy None = False"
| "truthy (Some s) = (s \<noteq> [])"

subsection \<open>The class \<^verbatim>\<open>CurrentBuilder\<close>\<close>

text \<open>
  \<^verbatim>\<open>constructor(value, order, id)\<close>: the state of the fresh object. The facade's
  \<^verbatim>\<open>combine\<close> passes one argument only, so \<open>order\<close> and \<open>ident\<close> can be \<^verbatim>\<open>undefined\<close>.
\<close>

definition CurrentBuilder_constructor ::
    "string \<Rightarrow> int option \<Rightarrow> string option \<Rightarrow> CurrentBuilder" where
  "CurrentBuilder_constructor val ord ident =
     \<lparr>stack = [val],
      singleStack = (if truthy ident then [the ident] else []),
      order = ord\<rparr>"

text \<open>Sequencing of two statements: an exception in the first skips the second.\<close>

definition seq :: "'a method_body \<Rightarrow> 'b method_body \<Rightarrow> 'b method_body" where
  "seq m1 m2 b = (case m1 b of (Inl e, b1) \<Rightarrow> (Inl e, b1) | (Inr _, b1) \<Rightarrow> m2 b1)"

text \<open>\<^verbatim>\<open>this.stack.push(s)\<close>.\<close>

definition push :: "string \<Rightarrow> unit method_body" where
  "push s b = (Inr (), b\<lparr>stack := stack b @ [s]\<rparr>)"

text \<open>\<^verbatim>\<open>stringify()\<close>: \<^verbatim>\<open>join('')\<close> of the stack, which is then replaced by \<^verbatim>\<open>[]\<close>.\<close>

definition stringify :: "string method_body" where
  "stringify b = (Inr (concat (stack b)), b\<lparr>stack := []\<rparr>)"

definition testUniq :: "string \<Rightarrow> unit method_body" where
  "testUniq val b =
     (if indexOf (singleStack b) val > - 1
      then (Inl (Error ''Element, id and pseudo-element should not occur more then one time inside the selector''), b)
      else (Inr (), b\<lparr>singleStack := singleStack b @ [val]\<rparr>))"

definition testOrder :: "int \<Rightarrow> unit method_body" where
  "testOrder val b =
     (if js_less val (order b)
      then (Inl (Error ''Selector parts should be arranged in the following order: element, id, class, attribute, pseudo-class, pseudo-element''), b)
      else (Inr (), b\<lparr>order := Some val\<rparr>))"

text \<open>
  The six fragment methods, statement by statement. Each returns \<^verbatim>\<open>this\<close>; the
  reference is added where the method is invoked on the store.
\<close>

definition element :: "string \<Rightarrow> unit method_body" where
  "element val = seq (testUniq ''element'') (seq (testOrder 0) (push val))"

definition id_sel :: "string \<Rightarrow> unit method_body" where
  "id_sel val = seq (testUniq ''id'') (seq (testOrder 1) (push (''#'' @ val)))"

definition class_sel :: "string \<Rightarrow> unit method_body" where
  "class_sel val = seq (testOrder 2) (push (''.'' @ val))"

definition attr :: "string \<Rightarrow> unit method_body" where
  "attr val = seq (testOrder 3) (push (''['' @ val @ '']''))"

definition pseudoClass :: "string \<Rightarrow> unit method_body" where
  "pseudoClass val = seq (testOrder 4) (push ('':'' @ val))"

definition pseudoElement :: "string \<Rightarrow> unit method_body" where
  "pseudoElement val =
     seq (testOrder 5) (seq (testUniq ''pseudoElement'') (push (''::'' @ val)))"

text \<open>
  \<^verbatim>\<open>combinator === '' ? combinator : ` ${combinator} `\<close>, the expression both
  \<^verbatim>\<open>combine\<close> functions compute.
\<close>

definition combinatorValue :: "string \<Rightarrow> string" where
  "combinatorValue combinator = (if combinator = [] then combinator else '' '' @ combinator @ '' '')"

subsection \<open>The store\<close>

text \<open>
  The store lists the builders in allocation order; a reference is an index. \<^verbatim>\<open>new\<close>
  appends, so a fresh reference differs from every reference in use.
\<close>

type_synonym ref = nat
type_synonym heap = "CurrentBuilder list"

definition lookup :: "heap \<Rightarrow> ref \<Rightarrow> CurrentBuilder option" where
  "lookup h r = (if r < length h then Some (h ! r) else None)"

definition new_CurrentBuilder ::
    "string \<Rightarrow> int option \<Rightarrow> string option \<Rightarrow> heap \<Rightarrow> ref \<times> heap" where
  "new_CurrentBuilder val ord ident h =
     (length h, h @ [CurrentBuilder_constructor val ord ident])"

text \<open>Calling a method on the object a reference designates.\<close>

definition invoke :: "ref \<Rightarrow> 'a method_body \<Rightarrow> heap \<Rightarrow> (js_error + 'a) \<times> heap" where
  "invoke r m h =
     (case lookup h r of
        None \<Rightarrow> (Inl TypeError, h)
      | Some b \<Rightarrow> (case m b of (res, b') \<Rightarrow> (res, h[r := b'])))"

text \<open>A method that ends in \<^verbatim>\<open>return this\<close>.\<close>

definition fluent :: "ref \<Rightarrow> unit method_body \<Rightarrow> heap \<Rightarrow> (js_error + ref) \<times> heap" where
  "fluent r m h =
     (case invoke r m h of (Inl e, h') \<Rightarrow> (Inl e, h') | (Inr _, h') \<Rightarrow> (Inr r, h'))"

text \<open>
  \<^verbatim>\<open>CurrentBuilder.combine(selector1, combinator, selector2)\<close> on the receiver \<open>this\<close>.
  The three references may coincide.
\<close>

definition combine :: "ref \<Rightarrow> ref \<Rightarrow> string \<Rightarrow> ref \<Rightarrow> heap \<Rightarrow> (js_error + ref) \<times> heap" where
  "combine this selector1 combinator selector2 h =
     (case lookup h this of
        None \<Rightarrow> (Inl TypeError, h)
      | Some _ \<Rightarrow>
        (case invoke selector1 stringify h of
           (Inl e, h1) \<Rightarrow> (Inl e, h1)
         | (Inr sel1Value, h1) \<Rightarrow>
           (case invoke selector2 stringify h1 of
              (Inl e, h2) \<Rightarrow> (Inl e, h2)
            | (Inr sel2Value, h2) \<Rightarrow>
                fluent this (push (sel1Value @ combinatorValue combinator @ sel2Value)) h2)))"

subsection \<open>The facade \<^verbatim>\<open>cssSelectorBuilder\<close>\<close>

definition cssSelectorBuilder_element :: "string \<Rightarrow> heap \<Rightarrow> ref \<times> heap" where
  "cssSelectorBuilder_element val = new_CurrentBuilder val (Some 0) (Some ''element'')"

definition cssSelectorBuilder_id :: "string \<Rightarrow> heap \<Rightarrow> ref \<times> heap" where
  "cssSelectorBuilder_id val = new_CurrentBuilder (''#'' @ val) (Some 1) (Some ''id'')"

definition cssSelectorBuilder_class :: "string \<Rightarrow> heap \<Rightarrow> ref \<times> heap" where
  "cssSelectorBuilder_class val = new_CurrentBuilder (''.'' @ val) (Some 2) (Some ''class'')"

definition cssSelectorBuilder_attr :: "string \<Rightarrow> heap \<Rightarrow> ref \<times> heap" where
  "cssSelectorBuilder_attr val =
     new_CurrentBuilder (''['' @ val @ '']'') (Some 3) (Some ''attr'')"

definition cssSelectorBuilder_pseudoClass :: "string \<Rightarrow> heap \<Rightarrow> ref \<times> heap" where
  "cssSelectorBuilder_pseudoClass val =
     new_CurrentBuilder ('':'' @ val) (Some 4) (Some ''pseudoClass'')"

definition cssSelectorBuilder_pseudoElement :: "string \<Rightarrow> heap \<Rightarrow> ref \<times> heap" where
  "cssSelectorBuilder_pseudoElement val =
     new_CurrentBuilder (''::'' @ val) (Some 5) (Some ''pseudoElement'')"

definition cssSelectorBuilder_combine ::
    "ref \<Rightarrow> string \<Rightarrow> ref \<Rightarrow> heap \<Rightarrow> (js_error + ref) \<times> heap" where
  "cssSelectorBuilder_combine selector1 combinator selector2 h =
     (case invoke selector1 stringify h of
        (Inl e, h1) \<Rightarrow> (Inl e, h1)
      | (Inr sel1Value, h1) \<Rightarrow>
        (case invoke selector2 stringify h1 of
           (Inl e, h2) \<Rightarrow> (Inl e, h2)
         | (Inr sel2Value, h2) \<Rightarrow>
             (case new_CurrentBuilder (sel1Value @ combinatorValue combinator @ sel2Value)
                     None None h2 of
                (r, h3) \<Rightarrow> (Inr r, h3))))"

subsection \<open>Fragments and chains of calls\<close>

text \<open>
  A fragment names one of the six calls together with its argument, so that a chain
  \<^verbatim>\<open>cssSelectorBuilder.id('a').class('b')\<close> is the list \<open>[Id ''a'', Class ''b'']\<close>.
\<close>

datatype fragment =
  Element string | Id string | Class string | Attr string
  | PseudoClass string | PseudoElement string

text \<open>The method a fragment stands for, and the facade function that seeds a builder with it.\<close>

fun append_fragment :: "fragment \<Rightarrow> unit method_body" where
  "append_fragment (Element v) = element v"
| "append_fragment (Id v) = id_sel v"
| "append_fragment (Class v) = class_sel v"
| "append_fragment (Attr v) = attr v"
| "append_fragment (PseudoClass v) = pseudoClass v"
| "append_fragment (PseudoElement v) = pseudoElement v"

fun seed :: "fragment \<Rightarrow> heap \<Rightarrow> ref \<times> heap" where
  "seed (Element v) = cssSelectorBuilder_element v"
| "seed (Id v) = cssSelectorBuilder_id v"
| "seed (Class v) = cssSelectorBuilder_class v"
| "seed (Attr v) = cssSelectorBuilder_attr v"
| "seed (PseudoClass v) = cssSelectorBuilder_pseudoClass v"
| "seed (PseudoElement v) = cssSelectorBuilder_pseudoElement v"

text \<open>
  A chain of fluent calls on one reference: the first exception ends the chain, and the
  store is the one the exception left.
\<close>

fun chain :: "ref \<Rightarrow> fragment list \<Rightarrow> heap \<Rightarrow> (js_error + ref) \<times> heap" where
  "chain r [] h = (Inr r, h)"
| "chain r (f # fs) h =
     (case fluent r (append_fragment f) h of
        (Inl e, h') \<Rightarrow> (Inl e, h')
      | (Inr r', h') \<Rightarrow> chain r' fs h')"

text \<open>
  \<^verbatim>\<open>cssSelectorBuilder.f0(v0).f1(v1)...fn(vn).stringify()\<close> as one expression.
\<close>

definition build :: "fragment \<Rightarrow> fragment list \<Rightarrow> heap \<Rightarrow> (js_error + string) \<times> heap" where
  "build f fs h =
     (case seed f h of
        (r, h0) \<Rightarrow>
          (case chain r fs h0 of
             (Inl e, h1) \<Rightarrow> (Inl e, h1)
           | (Inr r', h1) \<Rightarrow> invoke r' stringify h1))"

subsection \<open>The vocabulary of the specification\<close>

text \<open>
  The two errors of the specification are JavaScript \<^verbatim>\<open>Error\<close> objects told apart by
  their messages: the one thrown in \<^verbatim>\<open>testUniq\<close> and the one thrown in \<^verbatim>\<open>testOrder\<close>.
\<close>

definition DuplicateFragmentError :: js_error where
  "DuplicateFragmentError =
     Error ''Element, id and pseudo-element should not occur more then one time inside the selector''"

definition OutOfOrderError :: js_error where
  "OutOfOrderError =
     Error ''Selector parts should be arranged in the following order: element, id, class, attribute, pseudo-class, pseudo-element''"

text \<open>The rank table: rank, seen-once tag, whether the kind may occur once only, prefix.\<close>

fun rank :: "fragment \<Rightarrow> int" where
  "rank (Element v) = 0"
| "rank (Id v) = 1"
| "rank (Class v) = 2"
| "rank (Attr v) = 3"
| "rank (PseudoClass v) = 4"
| "rank (PseudoElement v) = 5"

fun kind_name :: "fragment \<Rightarrow> string" where
  "kind_name (Element v) = ''element''"
| "kind_name (Id v) = ''id''"
| "kind_name (Class v) = ''class''"
| "kind_name (Attr v) = ''attr''"
| "kind_name (PseudoClass v) = ''pseudoClass''"
| "kind_name (PseudoElement v) = ''pseudoElement''"

fun seen_once :: "fragment \<Rightarrow> bool" where
  "seen_once (Element v) = True"
| "seen_once (Id v) = True"
| "seen_once (PseudoElement v) = True"
| "seen_once _ = False"

text \<open>
  \<^verbatim>\<open>element\<close> and \<^verbatim>\<open>id\<close> call \<^verbatim>\<open>testUniq\<close> before \<^verbatim>\<open>testOrder\<close>;
  \<^verbatim>\<open>pseudoElement\<close> calls them the other way round.
\<close>

fun uniqueness_first :: "fragment \<Rightarrow> bool" where
  "uniqueness_first (Element v) = True"
| "uniqueness_first (Id v) = True"
| "uniqueness_first _ = False"

text \<open>The text of a fragment as the specification's table gives it: prefix, then value.\<close>

fun spec_fragment_text :: "fragment \<Rightarrow> string" where
  "spec_fragment_text (Element v) = v"
| "spec_fragment_text (Id v) = ''#'' @ v"
| "spec_fragment_text (Class v) = ''.'' @ v"
| "spec_fragment_text (Attr v) = ''['' @ v @ '']''"
| "spec_fragment_text (PseudoClass v) = '':'' @ v"
| "spec_fragment_text (PseudoElement v) = ''::'' @ v"

text \<open>
  A sequence of fragments respects the rank order when its ranks never decrease, and the
  seen-once rule when no element, id or pseudo-element occurs twice.
\<close>

definition respects_rank_order :: "fragment list \<Rightarrow> bool" where
  "respects_rank_order fs = sorted (map rank fs)"

definition respects_seen_once :: "fragment list \<Rightarrow> bool" where
  "respects_seen_once fs = distinct (map kind_name (filter seen_once fs))"

text \<open>The message the specification's section 4.2 quotes for a duplicate.\<close>

definition spec_duplicate_message :: string where
  "spec_duplicate_message =
     ''Element, id and pseudo-element should not occur more than one time inside the selector.''"

subsection \<open>What a client can do to the store\<close>

text \<open>
  One step is one call of the exported interface: a facade function, or a method of a
  builder. A call that throws is a step too, since the store keeps what the call wrote
  before the exception.
\<close>

inductive api_step :: "heap \<Rightarrow> heap \<Rightarrow> bool" where
  new_fragment: "api_step h (snd (seed f h))"
| new_combined: "api_step h (snd (cssSelectorBuilder_combine a c b h))"
| call_fragment: "api_step h (snd (fluent r (append_fragment f) h))"
| call_stringify: "api_step h (snd (invoke r stringify h))"
| call_combine: "api_step h (snd (combine x a c b h))"

definition reachable :: "heap \<Rightarrow> bool" where
  "reachable h = api_step\<^sup>*\<^sup>* [] h"

subsection \<open>Auxiliary notions for the proofs\<close>

text \<open>The calls of a chain composed into one method body on the receiver.\<close>

fun run :: "fragment list \<Rightarrow> unit method_body" where
  "run [] b = (Inr (), b)"
| "run (f # fs) b = seq (append_fragment f) (run fs) b"

text \<open>Every number the source ever stores in \<open>order\<close> is one of the ranks.\<close>

definition order_in_range :: "CurrentBuilder \<Rightarrow> bool" where
  "order_in_range b = (case order b of None \<Rightarrow> True | Some r \<Rightarrow> 0 \<le> r \<and> r \<le> 5)"

definition heap_in_range :: "heap \<Rightarrow> bool" where
  "heap_in_range h = list_all order_in_range h"

text \<open>A method that removes nothing from \<open>singleStack\<close> and keeps \<open>order\<close> a rank.\<close>

definition benign :: "'a method_body \<Rightarrow> bool" where
  "benign m =
     (\<forall>b. set (singleStack b) \<subseteq> set (singleStack (snd (m b))) \<and>
          (order_in_range b \<longrightarrow> order_in_range (snd (m b))))"

text \<open>The later store has every object of the earlier one, with no seen-once tag lost.\<close>

definition extends :: "heap \<Rightarrow> heap \<Rightarrow> bool" where
  "extends h h' =
     (length h \<le> length h' \<and>
      (\<forall>i < length h. set (singleStack (h ! i)) \<subseteq> set (singleStack (h' ! i))))"

text \<open>
  Stores for the examples: the builders of \<^verbatim>\<open>cssSelectorBuilder.element('a')\<close> and
  \<^verbatim>\<open>cssSelectorBuilder.element('b')\<close>, at references 0 and 1; the same with the builder
  of \<^verbatim>\<open>cssSelectorBuilder.class('c')\<close> at reference 2; and the builder of
  \<^verbatim>\<open>cssSelectorBuilder.element('div').id('main').class('main')\<close>, at reference 0.
\<close>

definition two_elements :: heap where
  "two_elements =
     snd (cssSelectorBuilder_element ''b'' (snd (cssSelectorBuilder_element ''a'' [])))"

definition three_builders :: heap where
  "three_builders = snd (cssSelectorBuilder_class ''c'' two_elements)"

definition div_main_main :: heap where
  "div_main_main =
     snd (chain 0 [Id ''main'', Class ''main''] (snd (cssSelectorBuilder_element ''div'' [])))"

section \<open>\<^verbatim>\<open>getJSON\<close> and \<^verbatim>\<open>fromJSON\<close>\<close>

text \<open>
  \<^verbatim>\<open>getJSON\<close> is \<^verbatim>\<open>JSON.stringify(obj)\<close>, and \<^verbatim>\<open>fromJSON\<close> is \<^verbatim>\<open>JSON.parse(json)\<close>
  followed by \<^verbatim>\<open>Object.setPrototypeOf\<close>. The three built-ins are not code of the
  repository; they are modelled here, on plain data.
\<close>

subsection \<open>Plain data\<close>


subsection \<open>The printer\<close>

text \<open>Decimal digits, and the two lower-case hexadecimal digits of a \<^verbatim>\<open>\u00XX\<close> escape.\<close>

definition is_digit :: "char \<Rightarrow> bool" where
  "is_digit c = (48 \<le> (of_char c :: nat) \<and> (of_char c :: nat) \<le> 57)"








definition is_hex :: "char \<Rightarrow> bool" where
  "is_hex c = (is_digit c \<or> (97 \<le> (of_char c :: nat) \<and> (of_char c :: nat) \<le> 102)
                \<or> (65 \<le> (of_char c :: nat) \<and> (of_char c :: nat) \<le> 70))"

definition hex_value :: "char \<Rightarrow> nat" where
  "hex_value c =
     (if is_digit c then of_char c - 48
      else if 97 \<le> (of_char c :: nat) then of_char c - 87
      else of_char c - 55)"





subsection \<open>The parser\<close>

text \<open>
  \<open>SyntaxError\<close> is what \<^verbatim>\<open>JSON.parse\<close> throws on a text that is not JSON.
  \<open>Outside_model\<close> marks a text that is JSON but denotes a value the type \<open>json\<close> does
  not have: a number with a fraction or an exponent, an integer beyond the safe range,
  minus zero, or a \<^verbatim>\<open>\uXXXX\<close> escape of a code unit above 255.
\<close>

datatype json_failure = SyntaxError | Outside_model

text \<open>The whitespace of the JSON grammar: space, tab, line feed, carriage return.\<close>

definition is_ws :: "char \<Rightarrow> bool" where
  "is_ws c = (c = CHR '' '' \<or> c = CHR 0x09 \<or> c = CHR 0x0A \<or> c = CHR 0x0D)"

definition skip_ws :: "string \<Rightarrow> string" where
  "skip_ws s = dropWhile is_ws s"

text \<open>
  Modelled from the spec: the characters of a string literal inside \<^verbatim>\<open>JSON.parse\<close>,
  read after the opening quote up to the closing one. A backslash starts an escape; a
  control character that is not escaped is a syntax error.
\<close>

definition unescape :: "char \<Rightarrow> char option" where
  "unescape e =
     (if e = CHR 0x22 then Some (CHR 0x22)
      else if e = CHR 0x5C then Some (CHR 0x5C)
      else if e = CHR ''/'' then Some (CHR ''/'')
      else if e = CHR ''b'' then Some (CHR 0x08)
      else if e = CHR ''f'' then Some (CHR 0x0C)
      else if e = CHR ''n'' then Some (CHR 0x0A)
      else if e = CHR ''r'' then Some (CHR 0x0D)
      else if e = CHR ''t'' then Some (CHR 0x09)
      else None)"

definition cons_char :: "char \<Rightarrow> json_failure + string \<times> string \<Rightarrow> json_failure + string \<times> string" where
  "cons_char c res = (case res of Inl e \<Rightarrow> Inl e | Inr (s, r) \<Rightarrow> Inr (c # s, r))"

fun parse_chars :: "string \<Rightarrow> json_failure + string \<times> string" where
  "parse_chars [] = Inl SyntaxError"
| "parse_chars (c # cs) =
     (if c = CHR 0x22 then Inr ([], cs)
      else if c = CHR 0x5C then
        (case cs of
           [] \<Rightarrow> Inl SyntaxError
         | e # cs1 \<Rightarrow>
             if e = CHR ''u'' then
               (case cs1 of
                  h1 # h2 # h3 # h4 # cs2 \<Rightarrow>
                    if is_hex h1 \<and> is_hex h2 \<and> is_hex h3 \<and> is_hex h4 then
                      (let u = ((hex_value h1 * 16 + hex_value h2) * 16 + hex_value h3) * 16
                                 + hex_value h4
                       in if u < 256 then cons_char (char_of u) (parse_chars cs2)
                          else Inl Outside_model)
                    else Inl SyntaxError
                | _ \<Rightarrow> Inl SyntaxError)
             else
               (case unescape e of
                  None \<Rightarrow> Inl SyntaxError
                | Some ch \<Rightarrow> cons_char ch (parse_chars cs1)))
      else if (of_char c :: nat) < 32 then Inl SyntaxError
      else cons_char c (parse_chars cs))"











text \<open>What may follow a printed value inside a printed text: nothing, or a delimiter.\<close>

definition delimited :: "string \<Rightarrow> bool" where
  "delimited r = (r = [] \<or> hd r = CHR '','' \<or> hd r = CHR '']'' \<or> hd r = CHR ''}'')"



subsection \<open>Objects with a prototype, and the two functions of the source\<close>










section \<open>Lemmas about the primitives\<close>

lemma indexOf_lower: "- 1 \<le> indexOf xs v"
  by (induction xs) (auto simp: Let_def)

lemma indexOf_found: "(indexOf xs v > - 1) = (v \<in> set xs)"
proof (induction xs)
  case Nil
  show ?case by simp
next
  case (Cons x xs)
  have "- 1 \<le> indexOf xs v" by (rule indexOf_lower)
  with Cons show ?case by (auto simp: Let_def)
qed

lemma testUniq_seen:
  "val \<in> set (singleStack b) \<Longrightarrow> testUniq val b = (Inl DuplicateFragmentError, b)"
  by (simp add: testUniq_def indexOf_found DuplicateFragmentError_def)

lemma testUniq_fresh:
  "val \<notin> set (singleStack b) \<Longrightarrow>
     testUniq val b = (Inr (), b\<lparr>singleStack := singleStack b @ [val]\<rparr>)"
  by (simp add: testUniq_def indexOf_found)

lemma testOrder_low:
  "js_less val (order b) \<Longrightarrow> testOrder val b = (Inl OutOfOrderError, b)"
  by (simp add: testOrder_def OutOfOrderError_def)

lemma testOrder_pass:
  "\<not> js_less val (order b) \<Longrightarrow> testOrder val b = (Inr (), b\<lparr>order := Some val\<rparr>)"
  by (simp add: testOrder_def)

lemma errors_differ: "DuplicateFragmentError \<noteq> OutOfOrderError"
  by (simp add: DuplicateFragmentError_def OutOfOrderError_def)

lemmas fragment_method_defs =
  element_def id_sel_def class_sel_def attr_def pseudoClass_def pseudoElement_def
  seq_def push_def

subsection \<open>One append\<close>

lemma append_fragment_accepts:
  assumes "\<not> js_less (rank f) (order b)"
    and "seen_once f \<longrightarrow> kind_name f \<notin> set (singleStack b)"
  shows "append_fragment f b =
    (Inr (), b\<lparr>singleStack := singleStack b @ (if seen_once f then [kind_name f] else []),
              order := Some (rank f),
              stack := stack b @ [spec_fragment_text f]\<rparr>)"
  using assms by (cases f) (simp_all add: fragment_method_defs testUniq_fresh testOrder_pass)

lemma append_fragment_duplicate_first:
  assumes "uniqueness_first f" and "kind_name f \<in> set (singleStack b)"
  shows "append_fragment f b = (Inl DuplicateFragmentError, b)"
  using assms by (cases f) (simp_all add: fragment_method_defs testUniq_seen)

lemma append_fragment_low_fresh:
  assumes "js_less (rank f) (order b)"
    and "\<not> (uniqueness_first f \<and> kind_name f \<in> set (singleStack b))"
  shows "fst (append_fragment f b) = Inl OutOfOrderError"
    and "stack (snd (append_fragment f b)) = stack b"
    and "set (singleStack (snd (append_fragment f b))) =
           set (singleStack b) \<union> (if uniqueness_first f then {kind_name f} else {})"
  using assms by (cases f; simp add: fragment_method_defs testUniq_fresh testOrder_low)+

lemma append_fragment_duplicate:
  assumes "seen_once f" and "kind_name f \<in> set (singleStack b)" and "order_in_range b"
  shows "append_fragment f b =
           (Inl DuplicateFragmentError, if uniqueness_first f then b else b\<lparr>order := Some 5\<rparr>)"
proof (cases "uniqueness_first f")
  case True
  then show ?thesis using assms(2) by (simp add: append_fragment_duplicate_first)
next
  case False
  with assms(1) obtain v where f: "f = PseudoElement v" by (cases f) simp_all
  have "\<not> js_less 5 (order b)"
    using assms(3) by (cases "order b") (simp_all add: order_in_range_def)
  then show ?thesis
    using assms(2) f by (simp add: fragment_method_defs testOrder_pass testUniq_seen)
qed

subsection \<open>Chains\<close>

lemma lookup_update:
  "r < length h \<Longrightarrow> lookup (h[r := b]) r' = (if r' = r then Some b else lookup h r')"
  by (simp add: lookup_def)

lemma lookup_valid: "lookup h r = Some b \<Longrightarrow> r < length h"
  by (simp add: lookup_def split: if_splits)

lemma lookup_new: "lookup (h @ [b]) (length h) = Some b"
  by (simp add: lookup_def)

lemma lookup_old: "r < length h \<Longrightarrow> lookup (h @ [b]) r = lookup h r"
  by (simp add: lookup_def nth_append)

lemma invoke_valid:
  "lookup h r = Some b \<Longrightarrow> invoke r m h = (fst (m b), h[r := snd (m b)])"
  by (simp add: invoke_def split: prod.splits)

lemma fluent_valid:
  "lookup h r = Some b \<Longrightarrow>
     fluent r m h =
       (case fst (m b) of Inl e \<Rightarrow> Inl e | Inr _ \<Rightarrow> Inr r, h[r := snd (m b)])"
  by (simp add: fluent_def invoke_valid split: sum.splits)

lemma chain_run:
  "lookup h r = Some b \<Longrightarrow>
     chain r fs h =
       (case fst (run fs b) of Inl e \<Rightarrow> Inl e | Inr _ \<Rightarrow> Inr r, h[r := snd (run fs b)])"
proof (induction fs arbitrary: h b)
  case Nil
  then show ?case by (auto simp: lookup_def split: if_splits)
next
  case (Cons f fs)
  have len: "r < length h" using Cons.prems by (rule lookup_valid)
  obtain res b1 where step: "append_fragment f b = (res, b1)" by (cases "append_fragment f b")
  show ?case
  proof (cases res)
    case (Inl e)
    with step Cons.prems show ?thesis by (simp add: fluent_valid seq_def)
  next
    case (Inr u)
    have "lookup (h[r := b1]) r = Some b1" using len by (simp add: lookup_update)
    from Cons.IH [OF this] Inr step Cons.prems show ?thesis
      by (simp add: fluent_valid seq_def)
  qed
qed

lemma run_accepts:
  assumes "order b = Some r0" and "sorted (r0 # map rank fs)"
    and "distinct (map kind_name (filter seen_once fs))"
    and "\<forall>f \<in> set fs. seen_once f \<longrightarrow> kind_name f \<notin> set (singleStack b)"
  shows "fst (run fs b) = Inr () \<and> stack (snd (run fs b)) = stack b @ map spec_fragment_text fs"
  using assms
proof (induction fs arbitrary: b r0)
  case Nil
  then show ?case by simp
next
  case (Cons f fs)
  let ?b1 = "b\<lparr>singleStack := singleStack b @ (if seen_once f then [kind_name f] else []),
              order := Some (rank f),
              stack := stack b @ [spec_fragment_text f]\<rparr>"
  have le: "\<not> js_less (rank f) (order b)" using Cons.prems(1,2) by simp
  have fresh: "seen_once f \<longrightarrow> kind_name f \<notin> set (singleStack b)" using Cons.prems(4) by simp
  have step: "append_fragment f b = (Inr (), ?b1)"
    using le fresh by (rule append_fragment_accepts)
  have o1: "order ?b1 = Some (rank f)" by simp
  have s1: "sorted (rank f # map rank fs)" using Cons.prems(2) by simp
  have d1: "distinct (map kind_name (filter seen_once fs))"
    using Cons.prems(3) by (simp split: if_splits)
  have f1: "\<forall>g \<in> set fs. seen_once g \<longrightarrow> kind_name g \<notin> set (singleStack ?b1)"
  proof (intro ballI impI)
    fix g assume g: "g \<in> set fs" "seen_once g"
    then have old: "kind_name g \<notin> set (singleStack b)" using Cons.prems(4) by simp
    have "seen_once f \<Longrightarrow> kind_name g \<noteq> kind_name f"
    proof
      assume "seen_once f" "kind_name g = kind_name f"
      moreover have "kind_name g \<in> set (map kind_name (filter seen_once fs))" using g by simp
      ultimately show False using Cons.prems(3) by simp
    qed
    with old show "kind_name g \<notin> set (singleStack ?b1)" by auto
  qed
  from Cons.IH [OF o1 s1 d1 f1] step show ?case by (simp add: seq_def)
qed

lemma seed_new:
  "seed f h =
     (length h, h @ [\<lparr>stack = [spec_fragment_text f], singleStack = [kind_name f],
                      order = Some (rank f)\<rparr>])"
  by (cases f)
     (simp_all add: cssSelectorBuilder_element_def cssSelectorBuilder_id_def
        cssSelectorBuilder_class_def cssSelectorBuilder_attr_def
        cssSelectorBuilder_pseudoClass_def cssSelectorBuilder_pseudoElement_def
        new_CurrentBuilder_def CurrentBuilder_constructor_def)

subsection \<open>Serializing a chain\<close>

text \<open>
  Claim C1. Take any fragment \<open>f\<close> for the facade's seeding call and any fragments \<open>fs\<close>
  for the fluent calls after it, such that the ranks of \<open>f # fs\<close> never decrease and no
  element, id or pseudo-element occurs twice. Then, from any store, the whole expression
  \<^verbatim>\<open>cssSelectorBuilder.f(..).fs(..).stringify()\<close> throws nothing and returns the
  concatenation, in call order and with nothing in between, of the fragments' texts as the
  specification's table gives them (value after prefix, the attribute value in brackets).
\<close>

theorem stringify_concatenates_fragments:
  assumes "respects_rank_order (f # fs)" and "respects_seen_once (f # fs)"
  shows "fst (build f fs h) = Inr (concat (map spec_fragment_text (f # fs)))"
proof -
  let ?b0 = "\<lparr>stack = [spec_fragment_text f], singleStack = [kind_name f],
              order = Some (rank f)\<rparr>"
  let ?h0 = "h @ [?b0]"
  have seeded: "seed f h = (length h, ?h0)" by (rule seed_new)
  have at: "lookup ?h0 (length h) = Some ?b0" by (rule lookup_new)
  have sorted0: "sorted (rank f # map rank fs)"
    using assms(1) by (simp add: respects_rank_order_def)
  have distinct0: "distinct (map kind_name (filter seen_once fs))"
    using assms(2) by (simp add: respects_seen_once_def split: if_splits)
  have fresh0: "\<forall>g \<in> set fs. seen_once g \<longrightarrow> kind_name g \<notin> set (singleStack ?b0)"
  proof (intro ballI impI)
    fix g assume g: "g \<in> set fs" "seen_once g"
    show "kind_name g \<notin> set (singleStack ?b0)"
    proof (cases "seen_once f")
      case True
      have "kind_name g \<in> set (map kind_name (filter seen_once fs))" using g by simp
      with True assms(2) have "kind_name g \<noteq> kind_name f"
        by (auto simp: respects_seen_once_def)
      then show ?thesis by simp
    next
      case False
      with g(2) have "kind_name g \<noteq> kind_name f" by (cases f; cases g) simp_all
      then show ?thesis by simp
    qed
  qed
  have ran: "fst (run fs ?b0) = Inr () \<and>
             stack (snd (run fs ?b0)) = stack ?b0 @ map spec_fragment_text fs"
    by (rule run_accepts [OF _ sorted0 distinct0 fresh0]) simp
  have chained: "chain (length h) fs ?h0 = (Inr (length h), ?h0[length h := snd (run fs ?b0)])"
    using chain_run [OF at, of fs] ran by simp
  have final: "lookup (?h0[length h := snd (run fs ?b0)]) (length h) = Some (snd (run fs ?b0))"
    by (simp add: lookup_new)
  have "build f fs h = invoke (length h) stringify (?h0[length h := snd (run fs ?b0)])"
    by (simp only: build_def seeded chained prod.case sum.case)
  also have "fst \<dots> = Inr (concat (stack (snd (run fs ?b0))))"
    by (simp only: invoke_valid [OF final] stringify_def fst_conv)
  finally show ?thesis using ran by simp
qed

theorem stringify_concatenates_fragments_witness:
  "respects_rank_order [Element ''a'', Attr ''href'', PseudoClass ''focus''] \<and>
   respects_seen_once [Element ''a'', Attr ''href'', PseudoClass ''focus''] \<and>
   fst (build (Element ''a'') [Attr ''href'', PseudoClass ''focus''] []) = Inr ''a[href]:focus''"
proof -
  have o: "respects_rank_order [Element ''a'', Attr ''href'', PseudoClass ''focus'']"
    by (simp add: respects_rank_order_def)
  have u: "respects_seen_once [Element ''a'', Attr ''href'', PseudoClass ''focus'']"
    by (simp add: respects_seen_once_def)
  show ?thesis
    using o u stringify_concatenates_fragments [OF o u, of "[]"] by simp
qed

subsection \<open>Consuming a builder\<close>

text \<open>
  Claim C7. For every builder \<open>b\<close> of the store, \<^verbatim>\<open>stringify()\<close> returns the concatenation
  of the accumulated parts and leaves the builder with no parts and its other fields as
  they were, so that a second \<^verbatim>\<open>stringify()\<close> on it, with no append in between, returns
  the empty string.
\<close>

theorem stringify_clears_parts:
  assumes "lookup h r = Some b"
  shows "fst (invoke r stringify h) = Inr (concat (stack b)) \<and>
         lookup (snd (invoke r stringify h)) r = Some (b\<lparr>stack := []\<rparr>) \<and>
         fst (invoke r stringify (snd (invoke r stringify h))) = Inr []"
proof -
  have len: "r < length h" using assms by (rule lookup_valid)
  have first: "invoke r stringify h = (Inr (concat (stack b)), h[r := b\<lparr>stack := []\<rparr>])"
    using assms by (simp add: invoke_valid stringify_def)
  have after: "lookup (h[r := b\<lparr>stack := []\<rparr>]) r = Some (b\<lparr>stack := []\<rparr>)"
    using len by (simp add: lookup_update)
  have second: "fst (invoke r stringify (h[r := b\<lparr>stack := []\<rparr>])) = Inr []"
    by (simp add: invoke_valid [OF after] stringify_def)
  show ?thesis using first after second by simp
qed

theorem stringify_clears_parts_witness:
  "lookup two_elements 1 = Some \<lparr>stack = [''b''], singleStack = [''element''], order = Some 0\<rparr> \<and>
   fst (invoke 1 stringify two_elements) = Inr ''b'' \<and>
   fst (invoke 1 stringify (snd (invoke 1 stringify two_elements))) = Inr []"
proof -
  have at: "lookup two_elements 1 =
      Some \<lparr>stack = [''b''], singleStack = [''element''], order = Some 0\<rparr>"
    by (simp add: two_elements_def cssSelectorBuilder_element_def new_CurrentBuilder_def
        CurrentBuilder_constructor_def lookup_def)
  show ?thesis using at stringify_clears_parts [OF at] by simp
qed

subsection \<open>A rejected append still marks the kind as seen\<close>

text \<open>
  Claim C8. Take any builder state whose current rank is greater than 0 and which has not
  seen the element kind. Then \<^verbatim>\<open>element(v)\<close> throws OutOfOrderError and leaves the parts
  as they were, yet the tag \<^verbatim>\<open>'element'\<close> is in the seen-once list afterwards, and a
  following \<^verbatim>\<open>element(w)\<close> throws DuplicateFragmentError. The same holds for \<^verbatim>\<open>id\<close>
  when the current rank is greater than 1.
\<close>

theorem failed_append_records_kind:
  "(js_less 0 (order b) \<and> ''element'' \<notin> set (singleStack b) \<longrightarrow>
      fst (element v b) = Inl OutOfOrderError \<and>
      stack (snd (element v b)) = stack b \<and>
      ''element'' \<in> set (singleStack (snd (element v b))) \<and>
      fst (element w (snd (element v b))) = Inl DuplicateFragmentError) \<and>
   (js_less 1 (order b) \<and> ''id'' \<notin> set (singleStack b) \<longrightarrow>
      fst (id_sel v b) = Inl OutOfOrderError \<and>
      stack (snd (id_sel v b)) = stack b \<and>
      ''id'' \<in> set (singleStack (snd (id_sel v b))) \<and>
      fst (id_sel w (snd (id_sel v b))) = Inl DuplicateFragmentError)"
proof (intro conjI impI)
  assume a: "js_less 0 (order b) \<and> ''element'' \<notin> set (singleStack b)"
  let ?b1 = "b\<lparr>singleStack := singleStack b @ [''element'']\<rparr>"
  have failed: "element v b = (Inl OutOfOrderError, ?b1)"
    using a by (simp add: element_def seq_def testUniq_fresh testOrder_low)
  have again: "element w ?b1 = (Inl DuplicateFragmentError, ?b1)"
    by (simp add: element_def seq_def testUniq_seen)
  show "fst (element v b) = Inl OutOfOrderError" using failed by simp
  show "stack (snd (element v b)) = stack b" using failed by simp
  show "''element'' \<in> set (singleStack (snd (element v b)))" using failed by simp
  show "fst (element w (snd (element v b))) = Inl DuplicateFragmentError"
    using failed again by simp
next
  assume a: "js_less 1 (order b) \<and> ''id'' \<notin> set (singleStack b)"
  let ?b1 = "b\<lparr>singleStack := singleStack b @ [''id'']\<rparr>"
  have failed: "id_sel v b = (Inl OutOfOrderError, ?b1)"
    using a by (simp add: id_sel_def seq_def testUniq_fresh testOrder_low)
  have again: "id_sel w ?b1 = (Inl DuplicateFragmentError, ?b1)"
    by (simp add: id_sel_def seq_def testUniq_seen)
  show "fst (id_sel v b) = Inl OutOfOrderError" using failed by simp
  show "stack (snd (id_sel v b)) = stack b" using failed by simp
  show "''id'' \<in> set (singleStack (snd (id_sel v b)))" using failed by simp
  show "fst (id_sel w (snd (id_sel v b))) = Inl DuplicateFragmentError"
    using failed again by simp
qed

theorem failed_append_records_kind_witness:
  "js_less 0 (order (CurrentBuilder_constructor ''.c'' (Some 2) (Some ''class''))) \<and>
   js_less 1 (order (CurrentBuilder_constructor ''.c'' (Some 2) (Some ''class''))) \<and>
   ''element'' \<notin> set (singleStack (CurrentBuilder_constructor ''.c'' (Some 2) (Some ''class''))) \<and>
   ''id'' \<notin> set (singleStack (CurrentBuilder_constructor ''.c'' (Some 2) (Some ''class''))) \<and>
   fst (element ''e'' (CurrentBuilder_constructor ''.c'' (Some 2) (Some ''class''))) = Inl OutOfOrderError \<and>
   fst (element ''f'' (snd (element ''e'' (CurrentBuilder_constructor ''.c'' (Some 2) (Some ''class'')))))
     = Inl DuplicateFragmentError \<and>
   fst (id_sel ''i'' (CurrentBuilder_constructor ''.c'' (Some 2) (Some ''class''))) = Inl OutOfOrderError \<and>
   fst (id_sel ''j'' (snd (id_sel ''i'' (CurrentBuilder_constructor ''.c'' (Some 2) (Some ''class'')))))
     = Inl DuplicateFragmentError"
  using failed_append_records_kind
    [of "CurrentBuilder_constructor ''.c'' (Some 2) (Some ''class'')" "''e''" "''f''"]
    failed_append_records_kind
    [of "CurrentBuilder_constructor ''.c'' (Some 2) (Some ''class'')" "''i''" "''j''"]
  by (simp add: CurrentBuilder_constructor_def)

subsection \<open>The order check\<close>

text \<open>
  Scenario C of the specification: the builder of
  \<^verbatim>\<open>cssSelectorBuilder.element('div').id('main').class('main')\<close> has current rank 2.
  Appending \<^verbatim>\<open>id('x')\<close>, of rank 1, throws DuplicateFragmentError and not
  OutOfOrderError, because \<^verbatim>\<open>id\<close> calls \<^verbatim>\<open>testUniq\<close> before \<^verbatim>\<open>testOrder\<close>. So a
  fragment of lower rank does not always raise OutOfOrderError.
\<close>

theorem out_of_order_always_counterexample:
  "lookup div_main_main 0 =
     Some \<lparr>stack = [''div'', ''#main'', ''.main''], singleStack = [''element'', ''id''],
           order = Some 2\<rparr> \<and>
   rank (Id ''x'') < 2 \<and>
   fst (fluent 0 (append_fragment (Id ''x'')) div_main_main) = Inl DuplicateFragmentError \<and>
   DuplicateFragmentError \<noteq> OutOfOrderError"
  by code_simp

text \<open>
  Claim C3, amended. For every builder state and fragment: when the fragment's rank is
  strictly less than the current rank, the append always throws, namely
  DuplicateFragmentError if the fragment is an element or an id whose kind is already in
  the seen-once list (uniqueness is checked first for these two), and OutOfOrderError in
  every other case; when the rank is not less than the current rank (equal, greater, or
  no current rank at all, as on a combined builder), the append never throws
  OutOfOrderError.
\<close>

theorem rank_check_outcome:
  "(js_less (rank f) (order b) \<longrightarrow>
      fst (append_fragment f b) =
        Inl (if uniqueness_first f \<and> kind_name f \<in> set (singleStack b)
             then DuplicateFragmentError else OutOfOrderError)) \<and>
   (\<not> js_less (rank f) (order b) \<longrightarrow> fst (append_fragment f b) \<noteq> Inl OutOfOrderError)"
proof (intro conjI impI)
  assume low: "js_less (rank f) (order b)"
  show "fst (append_fragment f b) =
        Inl (if uniqueness_first f \<and> kind_name f \<in> set (singleStack b)
             then DuplicateFragmentError else OutOfOrderError)"
  proof (cases "uniqueness_first f \<and> kind_name f \<in> set (singleStack b)")
    case True
    then show ?thesis by (simp add: append_fragment_duplicate_first)
  next
    case False
    with low have "fst (append_fragment f b) = Inl OutOfOrderError"
      by (rule append_fragment_low_fresh(1))
    with False show ?thesis by auto
  qed
next
  assume ok: "\<not> js_less (rank f) (order b)"
  show "fst (append_fragment f b) \<noteq> Inl OutOfOrderError"
  proof (cases "seen_once f \<and> kind_name f \<in> set (singleStack b)")
    case False
    then have "seen_once f \<longrightarrow> kind_name f \<notin> set (singleStack b)" by simp
    with ok show ?thesis by (simp add: append_fragment_accepts)
  next
    case True
    show ?thesis
    proof (cases "uniqueness_first f")
      case True
      with \<open>seen_once f \<and> kind_name f \<in> set (singleStack b)\<close> show ?thesis
        by (simp add: append_fragment_duplicate_first errors_differ)
    next
      case False
      with True obtain v where f: "f = PseudoElement v" by (cases f) simp_all
      with ok True show ?thesis
        by (simp add: fragment_method_defs testOrder_pass testUniq_seen errors_differ)
    qed
  qed
qed

theorem rank_check_outcome_witness:
  "js_less (rank (Element ''e'')) (order (CurrentBuilder_constructor ''.c'' (Some 2) (Some ''class''))) \<and>
   fst (append_fragment (Element ''e'') (CurrentBuilder_constructor ''.c'' (Some 2) (Some ''class'')))
     = Inl OutOfOrderError \<and>
   \<not> js_less (rank (Attr ''x'')) (order (CurrentBuilder_constructor ''.c'' (Some 2) (Some ''class''))) \<and>
   fst (append_fragment (Attr ''x'') (CurrentBuilder_constructor ''.c'' (Some 2) (Some ''class'')))
     \<noteq> Inl OutOfOrderError"
  using rank_check_outcome
    [of "Element ''e''" "CurrentBuilder_constructor ''.c'' (Some 2) (Some ''class'')"]
    rank_check_outcome
    [of "Attr ''x''" "CurrentBuilder_constructor ''.c'' (Some 2) (Some ''class'')"]
  by (simp add: CurrentBuilder_constructor_def)

subsection \<open>The message of a duplicate\<close>

text \<open>
  \<^verbatim>\<open>cssSelectorBuilder.element('a').element('b')\<close> is rejected as a duplicate, and the
  error's message is not the one with the word \<^verbatim>\<open>than\<close>, whether that message is read
  with its final full stop or without it.
\<close>

theorem duplicate_message_counterexample:
  "fst (build (Element ''a'') [Element ''b''] []) = Inl DuplicateFragmentError \<and>
   DuplicateFragmentError \<noteq> Error spec_duplicate_message \<and>
   DuplicateFragmentError \<noteq> Error (butlast spec_duplicate_message)"
  by code_simp

text \<open>
  Claim C6, amended. Whenever an element, id or pseudo-element is appended to a builder
  that has that kind in its seen-once list (and whose \<open>order\<close> is a rank or undefined, as
  it is on every builder the interface produces), the error thrown carries exactly the
  message \<^verbatim>\<open>Element, id and pseudo-element should not occur more then one time inside the selector\<close>:
  with the word \<^verbatim>\<open>then\<close>, and with no full stop at the end.
\<close>

theorem duplicate_message:
  assumes "order_in_range b" and "seen_once f" and "kind_name f \<in> set (singleStack b)"
  shows "fst (append_fragment f b) =
    Inl (Error ''Element, id and pseudo-element should not occur more then one time inside the selector'')"
  using append_fragment_duplicate [OF assms(2,3,1)] by (simp add: DuplicateFragmentError_def)

theorem duplicate_message_witness:
  "order_in_range (CurrentBuilder_constructor ''a'' (Some 0) (Some ''element'')) \<and>
   seen_once (Element ''b'') \<and>
   kind_name (Element ''b'') \<in> set (singleStack (CurrentBuilder_constructor ''a'' (Some 0) (Some ''element''))) \<and>
   fst (append_fragment (Element ''b'') (CurrentBuilder_constructor ''a'' (Some 0) (Some ''element''))) =
    Inl (Error ''Element, id and pseudo-element should not occur more then one time inside the selector'')"
proof -
  let ?b = "CurrentBuilder_constructor ''a'' (Some 0) (Some ''element'')"
  have r: "order_in_range ?b" by (simp add: order_in_range_def CurrentBuilder_constructor_def)
  have s: "seen_once (Element ''b'')" by simp
  have k: "kind_name (Element ''b'') \<in> set (singleStack ?b)"
    by (simp add: CurrentBuilder_constructor_def)
  show ?thesis using r s k duplicate_message [OF r s k] by simp
qed

subsection \<open>The two combine functions\<close>

lemma stringify_at:
  "lookup h r = Some b \<Longrightarrow>
     invoke r stringify h = (Inr (concat (stack b)), h[r := b\<lparr>stack := []\<rparr>])"
  by (simp add: invoke_valid stringify_def)

lemma stringify_empty:
  "lookup h r = Some b \<Longrightarrow> stack b = [] \<Longrightarrow> fst (invoke r stringify h) = Inr []"
  by (simp add: stringify_at)

text \<open>
  What the two \<^verbatim>\<open>stringify\<close> calls at the head of both combine functions return and
  leave behind. When both references name one object, the second call finds it emptied.
\<close>

lemma operands_stringified:
  assumes "lookup h a = Some A" and "lookup h b = Some B"
  shows "invoke a stringify h = (Inr (concat (stack A)), h[a := A\<lparr>stack := []\<rparr>])"
    and "invoke b stringify (h[a := A\<lparr>stack := []\<rparr>]) =
           (Inr (if b = a then [] else concat (stack B)),
            h[a := A\<lparr>stack := []\<rparr>, b := B\<lparr>stack := []\<rparr>])"
proof -
  have la: "a < length h" using assms(1) by (rule lookup_valid)
  show "invoke a stringify h = (Inr (concat (stack A)), h[a := A\<lparr>stack := []\<rparr>])"
    using assms(1) by (rule stringify_at)
  show "invoke b stringify (h[a := A\<lparr>stack := []\<rparr>]) =
           (Inr (if b = a then [] else concat (stack B)),
            h[a := A\<lparr>stack := []\<rparr>, b := B\<lparr>stack := []\<rparr>])"
  proof (cases "b = a")
    case True
    then have same: "B = A" using assms by simp
    have "lookup (h[a := A\<lparr>stack := []\<rparr>]) b = Some (A\<lparr>stack := []\<rparr>)"
      using la True by (simp add: lookup_update)
    then show ?thesis using True same by (simp add: stringify_at)
  next
    case False
    have "lookup (h[a := A\<lparr>stack := []\<rparr>]) b = Some B"
      using la False assms(2) by (simp add: lookup_update)
    then show ?thesis using False by (simp add: stringify_at)
  qed
qed

lemma operands_emptied:
  assumes "lookup h a = Some A" and "lookup h b = Some B"
  shows "lookup (h[a := A\<lparr>stack := []\<rparr>, b := B\<lparr>stack := []\<rparr>]) a = Some (A\<lparr>stack := []\<rparr>)"
    and "lookup (h[a := A\<lparr>stack := []\<rparr>, b := B\<lparr>stack := []\<rparr>]) b = Some (B\<lparr>stack := []\<rparr>)"
proof -
  have la: "a < length h" using assms(1) by (rule lookup_valid)
  have lb: "b < length h" using assms(2) by (rule lookup_valid)
  have same: "b = a \<Longrightarrow> B = A" using assms by simp
  show "lookup (h[a := A\<lparr>stack := []\<rparr>, b := B\<lparr>stack := []\<rparr>]) a = Some (A\<lparr>stack := []\<rparr>)"
    using la lb same by (cases "b = a") (simp_all add: lookup_update)
  show "lookup (h[a := A\<lparr>stack := []\<rparr>, b := B\<lparr>stack := []\<rparr>]) b = Some (B\<lparr>stack := []\<rparr>)"
    using la lb by (simp add: lookup_update)
qed

lemma facade_combine_result:
  assumes "lookup h a = Some A" and "lookup h b = Some B"
  shows "cssSelectorBuilder_combine a c b h =
    (Inr (length h),
     h[a := A\<lparr>stack := []\<rparr>, b := B\<lparr>stack := []\<rparr>] @
       [\<lparr>stack = [concat (stack A) @ combinatorValue c @ (if b = a then [] else concat (stack B))],
         singleStack = [], order = None\<rparr>])"
  by (simp add: cssSelectorBuilder_combine_def operands_stringified [OF assms]
      new_CurrentBuilder_def CurrentBuilder_constructor_def)

lemma instance_combine_result:
  assumes "lookup h a = Some A" and "lookup h b = Some B" and "lookup h x = Some X"
  shows "combine x a c b h =
    (Inr x,
     h[a := A\<lparr>stack := []\<rparr>, b := B\<lparr>stack := []\<rparr>,
       x := (if x = a \<or> x = b then X\<lparr>stack := []\<rparr> else X)
              \<lparr>stack := (if x = a \<or> x = b then [] else stack X) @
                 [concat (stack A) @ combinatorValue c @ (if b = a then [] else concat (stack B))]\<rparr>])"
proof -
  let ?h2 = "h[a := A\<lparr>stack := []\<rparr>, b := B\<lparr>stack := []\<rparr>]"
  have la: "a < length h" using assms(1) by (rule lookup_valid)
  have lb: "b < length h" using assms(2) by (rule lookup_valid)
  have lx: "x < length h" using assms(3) by (rule lookup_valid)
  have xa: "x = a \<Longrightarrow> X = A" using assms by simp
  have xb: "x = b \<Longrightarrow> X = B" using assms by simp
  have at: "lookup ?h2 x = Some (if x = a \<or> x = b then X\<lparr>stack := []\<rparr> else X)"
  proof (cases "x = a \<or> x = b")
    case True
    then show ?thesis
      using operands_emptied [OF assms(1,2)] xa xb by auto
  next
    case False
    then show ?thesis using la lb assms(3) by (simp add: lookup_update)
  qed
  show ?thesis
    using assms(3)
    by (simp add: combine_def operands_stringified [OF assms(1,2)] fluent_valid [OF at] push_def)
qed

lemma combine_then_stringify:
  assumes "lookup h a = Some A" and "lookup h b = Some B"
  shows "\<exists>r h'. cssSelectorBuilder_combine a c b h = (Inr r, h') \<and>
            fst (invoke r stringify h') =
              Inr (concat (stack A) @ combinatorValue c @
                   (if b = a then [] else concat (stack B)))"
    and "lookup h x = Some X \<Longrightarrow>
         \<exists>h'. combine x a c b h = (Inr x, h') \<and>
            fst (invoke x stringify h') =
              Inr ((if x = a \<or> x = b then [] else concat (stack X)) @
                   concat (stack A) @ combinatorValue c @
                   (if b = a then [] else concat (stack B)))"
proof -
  let ?joined = "concat (stack A) @ combinatorValue c @ (if b = a then [] else concat (stack B))"
  let ?h2 = "h[a := A\<lparr>stack := []\<rparr>, b := B\<lparr>stack := []\<rparr>]"
  let ?new = "\<lparr>stack = [?joined], singleStack = [], order = None\<rparr>"
  have fresh: "lookup (?h2 @ [?new]) (length h) = Some ?new"
    using lookup_new [of ?h2 ?new] by simp
  have "fst (invoke (length h) stringify (?h2 @ [?new])) = Inr ?joined"
    by (simp add: stringify_at [OF fresh])
  then show "\<exists>r h'. cssSelectorBuilder_combine a c b h = (Inr r, h') \<and>
            fst (invoke r stringify h') = Inr ?joined"
    by (simp add: facade_combine_result [OF assms])
next
  assume x: "lookup h x = Some X"
  let ?joined = "concat (stack A) @ combinatorValue c @ (if b = a then [] else concat (stack B))"
  let ?h2 = "h[a := A\<lparr>stack := []\<rparr>, b := B\<lparr>stack := []\<rparr>]"
  let ?X = "(if x = a \<or> x = b then X\<lparr>stack := []\<rparr> else X)
              \<lparr>stack := (if x = a \<or> x = b then [] else stack X) @ [?joined]\<rparr>"
  have lx: "x < length ?h2" using x by (simp add: lookup_valid)
  have at: "lookup (?h2[x := ?X]) x = Some ?X" using lx by (simp add: lookup_update)
  have "fst (invoke x stringify (?h2[x := ?X])) =
          Inr ((if x = a \<or> x = b then [] else concat (stack X)) @ ?joined)"
    by (simp add: stringify_at [OF at])
  then show "\<exists>h'. combine x a c b h = (Inr x, h') \<and>
            fst (invoke x stringify h') =
              Inr ((if x = a \<or> x = b then [] else concat (stack X)) @ ?joined)"
    by (simp add: instance_combine_result [OF assms x])
qed

lemma three_builders_at:
  "lookup three_builders 0 = Some \<lparr>stack = [''a''], singleStack = [''element''], order = Some 0\<rparr>"
  "lookup three_builders 1 = Some \<lparr>stack = [''b''], singleStack = [''element''], order = Some 0\<rparr>"
  "lookup three_builders 2 = Some \<lparr>stack = [''.c''], singleStack = [''class''], order = Some 2\<rparr>"
  by (simp_all add: three_builders_def two_elements_def cssSelectorBuilder_element_def
      cssSelectorBuilder_class_def new_CurrentBuilder_def CurrentBuilder_constructor_def
      lookup_def)

text \<open>
  Claim C4. Let \<open>a\<close> and \<open>b\<close> refer to builders \<open>A\<close> and \<open>B\<close>, and let \<open>c\<close> be any
  combinator. The facade's \<^verbatim>\<open>combine(a, c, b)\<close> returns a builder whose \<^verbatim>\<open>stringify()\<close>
  is the serialized string of \<open>A\<close>, then \<open>c\<close> with one space on each side when \<open>c\<close> is not
  empty and nothing at all when it is, then the serialized string of \<open>B\<close>. The string of
  \<open>B\<close> is read after \<open>A\<close> has been consumed, so it is empty when both references name one
  object. The method \<^verbatim>\<open>x.combine(a, c, b)\<close> appends the same string to the receiver:
  \<^verbatim>\<open>stringify()\<close> on \<open>x\<close> then returns the receiver's pending parts (none when the receiver
  is one of the operands, which the call has consumed) followed by that string.
\<close>

theorem combine_joins_with_spaced_combinator:
  assumes "lookup h a = Some A" and "lookup h b = Some B"
  shows "(\<exists>r h'. cssSelectorBuilder_combine a c b h = (Inr r, h') \<and>
            fst (invoke r stringify h') =
              Inr (concat (stack A) @ (if c = [] then [] else '' '' @ c @ '' '') @
                   (if b = a then [] else concat (stack B)))) \<and>
         (lookup h x = Some X \<longrightarrow>
          (\<exists>h'. combine x a c b h = (Inr x, h') \<and>
            fst (invoke x stringify h') =
              Inr ((if x = a \<or> x = b then [] else concat (stack X)) @
                   concat (stack A) @ (if c = [] then [] else '' '' @ c @ '' '') @
                   (if b = a then [] else concat (stack B)))))"
proof -
  have spacing: "combinatorValue c = (if c = [] then [] else '' '' @ c @ '' '')"
    by (simp add: combinatorValue_def)
  show ?thesis
    using combine_then_stringify(1) [OF assms, where c = c]
      combine_then_stringify(2) [OF assms, where c = c and x = x and X = X]
    unfolding spacing by blast
qed

theorem combine_joins_with_spaced_combinator_witness:
  "lookup three_builders 0 = Some \<lparr>stack = [''a''], singleStack = [''element''], order = Some 0\<rparr> \<and>
   lookup three_builders 1 = Some \<lparr>stack = [''b''], singleStack = [''element''], order = Some 0\<rparr> \<and>
   lookup three_builders 2 = Some \<lparr>stack = [''.c''], singleStack = [''class''], order = Some 2\<rparr> \<and>
   (\<exists>r h'. cssSelectorBuilder_combine 0 ''+'' 1 three_builders = (Inr r, h') \<and>
      fst (invoke r stringify h') = Inr ''a + b'') \<and>
   (\<exists>h'. combine 2 0 ''+'' 1 three_builders = (Inr 2, h') \<and>
      fst (invoke 2 stringify h') = Inr ''.ca + b'') \<and>
   (\<exists>r h'. cssSelectorBuilder_combine 0 [] 1 three_builders = (Inr r, h') \<and>
      fst (invoke r stringify h') = Inr ''ab'')"
  using three_builders_at
    combine_joins_with_spaced_combinator [OF three_builders_at(1,2), of "''+''" 2
      "\<lparr>stack = [''.c''], singleStack = [''class''], order = Some 2\<rparr>"]
    combine_joins_with_spaced_combinator [OF three_builders_at(1,2), of "[]" 2
      "\<lparr>stack = [''.c''], singleStack = [''class''], order = Some 2\<rparr>"]
  by simp

text \<open>
  With the builders of \<^verbatim>\<open>element('a')\<close> and \<^verbatim>\<open>element('b')\<close> and the combinator
  \<^verbatim>\<open>' '\<close>, the combined selector is \<^verbatim>\<open>a\<close>, three spaces, \<^verbatim>\<open>b\<close>: the two strings are
  not separated by two spaces.
\<close>

theorem single_space_combinator_counterexample:
  "fst (invoke 0 stringify two_elements) = Inr ''a'' \<and>
   fst (invoke 1 stringify two_elements) = Inr ''b'' \<and>
   fst (invoke 2 stringify (snd (cssSelectorBuilder_combine 0 '' '' 1 two_elements))) = Inr ''a   b'' \<and>
   fst (invoke 2 stringify (snd (cssSelectorBuilder_combine 0 '' '' 1 two_elements)))
     \<noteq> Inr (''a'' @ ''  '' @ ''b'')"
  by code_simp

text \<open>
  Claim C5, amended. For all builders \<open>A\<close> and \<open>B\<close>, \<^verbatim>\<open>combine\<close> with the single space
  character as combinator separates the two serialized selectors by exactly three space
  characters: the token itself and the space added on each side of it. This holds for the
  facade's function and for the method, under the reading of claim C4.
\<close>

theorem single_space_combinator_three_spaces:
  assumes "lookup h a = Some A" and "lookup h b = Some B"
  shows "(\<exists>r h'. cssSelectorBuilder_combine a '' '' b h = (Inr r, h') \<and>
            fst (invoke r stringify h') =
              Inr (concat (stack A) @ ''   '' @ (if b = a then [] else concat (stack B)))) \<and>
         (lookup h x = Some X \<longrightarrow>
          (\<exists>h'. combine x a '' '' b h = (Inr x, h') \<and>
            fst (invoke x stringify h') =
              Inr ((if x = a \<or> x = b then [] else concat (stack X)) @
                   concat (stack A) @ ''   '' @ (if b = a then [] else concat (stack B)))))"
proof -
  have spacing: "combinatorValue '' '' = ''   ''"
    by (simp add: combinatorValue_def)
  show ?thesis
    using combine_then_stringify(1) [OF assms, where c = "'' ''"]
      combine_then_stringify(2) [OF assms, where c = "'' ''" and x = x and X = X]
    unfolding spacing by blast
qed

theorem single_space_combinator_three_spaces_witness:
  "lookup three_builders 0 = Some \<lparr>stack = [''a''], singleStack = [''element''], order = Some 0\<rparr> \<and>
   lookup three_builders 1 = Some \<lparr>stack = [''b''], singleStack = [''element''], order = Some 0\<rparr> \<and>
   lookup three_builders 2 = Some \<lparr>stack = [''.c''], singleStack = [''class''], order = Some 2\<rparr> \<and>
   (\<exists>r h'. cssSelectorBuilder_combine 0 '' '' 1 three_builders = (Inr r, h') \<and>
      fst (invoke r stringify h') = Inr ''a   b'') \<and>
   (\<exists>h'. combine 2 0 '' '' 1 three_builders = (Inr 2, h') \<and>
      fst (invoke 2 stringify h') = Inr ''.ca   b'')"
  using three_builders_at
    single_space_combinator_three_spaces [OF three_builders_at(1,2), of 2
      "\<lparr>stack = [''.c''], singleStack = [''class''], order = Some 2\<rparr>"]
  by simp

text \<open>
  With the builders of \<^verbatim>\<open>element('a')\<close> and \<^verbatim>\<open>element('b')\<close> at references 0 and 1,
  the call \<^verbatim>\<open>a.combine(a, '~', b)\<close> returns \<open>a\<close>, and a \<^verbatim>\<open>stringify()\<close> on \<open>a\<close> right
  after it returns \<^verbatim>\<open>a ~ b\<close>, not the empty string: the method pushes the combined string
  onto its receiver after it has emptied the operands, and here the receiver is an operand.
\<close>

theorem receiver_operand_counterexample:
  "lookup two_elements 0 = Some \<lparr>stack = [''a''], singleStack = [''element''], order = Some 0\<rparr> \<and>
   lookup two_elements 1 = Some \<lparr>stack = [''b''], singleStack = [''element''], order = Some 0\<rparr> \<and>
   fst (combine 0 0 ''~'' 1 two_elements) = Inr 0 \<and>
   fst (invoke 0 stringify (snd (combine 0 0 ''~'' 1 two_elements))) = Inr ''a ~ b'' \<and>
   fst (invoke 0 stringify (snd (combine 0 0 ''~'' 1 two_elements))) \<noteq> Inr []"
  by code_simp

text \<open>
  Claim C9, amended. Both combine functions call \<^verbatim>\<open>stringify()\<close> on both operands. After
  the facade's \<^verbatim>\<open>combine(a, c, b)\<close> each operand is left in the store with no parts and
  its other fields unchanged, and \<^verbatim>\<open>stringify()\<close> on it returns the empty string, whether
  or not the two references name one object. After the method \<^verbatim>\<open>x.combine(a, c, b)\<close> the
  same holds of every operand that is not the receiver \<open>x\<close>. An operand that is the
  receiver is emptied as well, but then holds the combined string as its only part.
\<close>

theorem combine_empties_operands:
  assumes "lookup h a = Some A" and "lookup h b = Some B"
  shows "lookup (snd (cssSelectorBuilder_combine a c b h)) a = Some (A\<lparr>stack := []\<rparr>) \<and>
         lookup (snd (cssSelectorBuilder_combine a c b h)) b = Some (B\<lparr>stack := []\<rparr>) \<and>
         fst (invoke a stringify (snd (cssSelectorBuilder_combine a c b h))) = Inr [] \<and>
         fst (invoke b stringify (snd (cssSelectorBuilder_combine a c b h))) = Inr [] \<and>
         (lookup h x = Some X \<longrightarrow>
            (a \<noteq> x \<longrightarrow>
               lookup (snd (combine x a c b h)) a = Some (A\<lparr>stack := []\<rparr>) \<and>
               fst (invoke a stringify (snd (combine x a c b h))) = Inr []) \<and>
            (b \<noteq> x \<longrightarrow>
               lookup (snd (combine x a c b h)) b = Some (B\<lparr>stack := []\<rparr>) \<and>
               fst (invoke b stringify (snd (combine x a c b h))) = Inr []) \<and>
            (x = a \<or> x = b \<longrightarrow>
               lookup (snd (combine x a c b h)) x =
                 Some (X\<lparr>stack := [concat (stack A) @ combinatorValue c @
                                      (if b = a then [] else concat (stack B))]\<rparr>)))"
proof -
  let ?h2 = "h[a := A\<lparr>stack := []\<rparr>, b := B\<lparr>stack := []\<rparr>]"
  let ?joined = "concat (stack A) @ combinatorValue c @ (if b = a then [] else concat (stack B))"
  let ?new = "\<lparr>stack = [?joined], singleStack = [], order = None\<rparr>"
  have la: "a < length ?h2" and lb: "b < length ?h2"
    using assms by (simp_all add: lookup_valid)
  have fa: "lookup (?h2 @ [?new]) a = Some (A\<lparr>stack := []\<rparr>)"
    using lookup_old [OF la] operands_emptied(1) [OF assms] by simp
  have fb: "lookup (?h2 @ [?new]) b = Some (B\<lparr>stack := []\<rparr>)"
    using lookup_old [OF lb] operands_emptied(2) [OF assms] by simp
  have facade: "snd (cssSelectorBuilder_combine a c b h) = ?h2 @ [?new]"
    by (simp add: facade_combine_result [OF assms])
  have f1: "lookup (snd (cssSelectorBuilder_combine a c b h)) a = Some (A\<lparr>stack := []\<rparr>)"
    and f2: "lookup (snd (cssSelectorBuilder_combine a c b h)) b = Some (B\<lparr>stack := []\<rparr>)"
    using fa fb by (simp_all only: facade)
  have f3: "fst (invoke a stringify (snd (cssSelectorBuilder_combine a c b h))) = Inr []"
    by (rule stringify_empty [OF f1]) simp
  have f4: "fst (invoke b stringify (snd (cssSelectorBuilder_combine a c b h))) = Inr []"
    by (rule stringify_empty [OF f2]) simp
  have inst: "(a \<noteq> x \<longrightarrow>
               lookup (snd (combine x a c b h)) a = Some (A\<lparr>stack := []\<rparr>) \<and>
               fst (invoke a stringify (snd (combine x a c b h))) = Inr []) \<and>
            (b \<noteq> x \<longrightarrow>
               lookup (snd (combine x a c b h)) b = Some (B\<lparr>stack := []\<rparr>) \<and>
               fst (invoke b stringify (snd (combine x a c b h))) = Inr []) \<and>
            (x = a \<or> x = b \<longrightarrow>
               lookup (snd (combine x a c b h)) x = Some (X\<lparr>stack := [?joined]\<rparr>))"
    if x: "lookup h x = Some X"
  proof -
    let ?X = "(if x = a \<or> x = b then X\<lparr>stack := []\<rparr> else X)
                \<lparr>stack := (if x = a \<or> x = b then [] else stack X) @ [?joined]\<rparr>"
    have lx: "x < length ?h2" using x by (simp add: lookup_valid)
    have res: "snd (combine x a c b h) = ?h2[x := ?X]"
      by (simp only: instance_combine_result [OF assms x] snd_conv)
    have ia: "lookup (?h2[x := ?X]) a = Some (A\<lparr>stack := []\<rparr>)" if "a \<noteq> x"
      using that lx operands_emptied(1) [OF assms] by (simp add: lookup_update)
    have ib: "lookup (?h2[x := ?X]) b = Some (B\<lparr>stack := []\<rparr>)" if "b \<noteq> x"
      using that lx operands_emptied(2) [OF assms] by (simp add: lookup_update)
    have ix: "lookup (?h2[x := ?X]) x = Some (X\<lparr>stack := [?joined]\<rparr>)" if "x = a \<or> x = b"
      using that lx by (simp add: lookup_update)
    show ?thesis
    proof (intro conjI impI)
      assume n: "a \<noteq> x"
      show l: "lookup (snd (combine x a c b h)) a = Some (A\<lparr>stack := []\<rparr>)"
        using ia [OF n] by (simp only: res)
      show "fst (invoke a stringify (snd (combine x a c b h))) = Inr []"
        by (rule stringify_empty [OF l]) simp
    next
      assume n: "b \<noteq> x"
      show l: "lookup (snd (combine x a c b h)) b = Some (B\<lparr>stack := []\<rparr>)"
        using ib [OF n] by (simp only: res)
      show "fst (invoke b stringify (snd (combine x a c b h))) = Inr []"
        by (rule stringify_empty [OF l]) simp
    next
      assume "x = a \<or> x = b"
      then show "lookup (snd (combine x a c b h)) x = Some (X\<lparr>stack := [?joined]\<rparr>)"
        using ix by (simp only: res)
    qed
  qed
  show ?thesis using f1 f2 f3 f4 inst by blast
qed

theorem combine_empties_operands_witness:
  "lookup three_builders 0 = Some \<lparr>stack = [''a''], singleStack = [''element''], order = Some 0\<rparr> \<and>
   lookup three_builders 1 = Some \<lparr>stack = [''b''], singleStack = [''element''], order = Some 0\<rparr> \<and>
   lookup three_builders 2 = Some \<lparr>stack = [''.c''], singleStack = [''class''], order = Some 2\<rparr> \<and>
   lookup (snd (cssSelectorBuilder_combine 0 ''>'' 1 three_builders)) 0
     = Some \<lparr>stack = [], singleStack = [''element''], order = Some 0\<rparr> \<and>
   lookup (snd (cssSelectorBuilder_combine 0 ''>'' 1 three_builders)) 1
     = Some \<lparr>stack = [], singleStack = [''element''], order = Some 0\<rparr> \<and>
   fst (invoke 0 stringify (snd (cssSelectorBuilder_combine 0 ''>'' 1 three_builders))) = Inr [] \<and>
   fst (invoke 1 stringify (snd (cssSelectorBuilder_combine 0 ''>'' 1 three_builders))) = Inr [] \<and>
   lookup (snd (combine 2 0 ''>'' 1 three_builders)) 0
     = Some \<lparr>stack = [], singleStack = [''element''], order = Some 0\<rparr> \<and>
   fst (invoke 0 stringify (snd (combine 2 0 ''>'' 1 three_builders))) = Inr [] \<and>
   fst (invoke 1 stringify (snd (combine 2 0 ''>'' 1 three_builders))) = Inr [] \<and>
   lookup (snd (combine 0 0 ''>'' 1 three_builders)) 0
     = Some \<lparr>stack = [''a > b''], singleStack = [''element''], order = Some 0\<rparr> \<and>
   lookup (snd (combine 0 0 ''>'' 1 three_builders)) 1
     = Some \<lparr>stack = [], singleStack = [''element''], order = Some 0\<rparr>"
  using three_builders_at
    combine_empties_operands [OF three_builders_at(1,2), where c = "''>''" and x = 2
      and X = "\<lparr>stack = [''.c''], singleStack = [''class''], order = Some 2\<rparr>"]
    combine_empties_operands [OF three_builders_at(1,2), where c = "''>''" and x = 0
      and X = "\<lparr>stack = [''a''], singleStack = [''element''], order = Some 0\<rparr>"]
  by (simp add: combinatorValue_def)

subsection \<open>Invariants of the store\<close>

lemma benign_seq: "benign m1 \<Longrightarrow> benign m2 \<Longrightarrow> benign (seq m1 m2)"
proof -
  assume m1: "benign m1" and m2: "benign m2"
  show "benign (seq m1 m2)"
    unfolding benign_def
  proof (intro allI)
    fix b
    obtain res b1 where r1: "m1 b = (res, b1)" by (cases "m1 b")
    have "set (singleStack b) \<subseteq> set (singleStack (snd (m1 b))) \<and>
          (order_in_range b \<longrightarrow> order_in_range (snd (m1 b)))"
      using m1 unfolding benign_def by blast
    then have s1: "set (singleStack b) \<subseteq> set (singleStack b1)"
      and o1: "order_in_range b \<longrightarrow> order_in_range b1"
      using r1 by simp_all
    have s2: "set (singleStack b1) \<subseteq> set (singleStack (snd (m2 b1)))"
      and o2: "order_in_range b1 \<longrightarrow> order_in_range (snd (m2 b1))"
      using m2 by (auto simp: benign_def)
    show "set (singleStack b) \<subseteq> set (singleStack (snd (seq m1 m2 b))) \<and>
          (order_in_range b \<longrightarrow> order_in_range (snd (seq m1 m2 b)))"
    proof (cases res)
      case (Inl e)
      with r1 s1 o1 show ?thesis by (simp add: seq_def)
    next
      case (Inr u)
      with r1 s1 o1 s2 o2 show ?thesis by (auto simp: seq_def)
    qed
  qed
qed

lemma benign_testUniq: "benign (testUniq val)"
  by (auto simp: benign_def testUniq_def order_in_range_def)

lemma benign_testOrder: "0 \<le> val \<Longrightarrow> val \<le> 5 \<Longrightarrow> benign (testOrder val)"
  by (auto simp: benign_def testOrder_def order_in_range_def)

lemma benign_push: "benign (push s)"
  by (simp add: benign_def push_def order_in_range_def)

lemma benign_stringify: "benign stringify"
  by (simp add: benign_def stringify_def order_in_range_def)

lemma benign_append_fragment: "benign (append_fragment f)"
  by (cases f)
     (simp_all add: element_def id_sel_def class_sel_def attr_def pseudoClass_def
        pseudoElement_def benign_seq benign_testUniq benign_testOrder benign_push)

lemma extends_refl: "extends h h"
  by (simp add: extends_def)

lemma extends_trans: "extends h1 h2 \<Longrightarrow> extends h2 h3 \<Longrightarrow> extends h1 h3"
  unfolding extends_def by (meson le_trans less_le_trans subset_trans)

lemma extends_new: "extends h (h @ [b])"
  by (simp add: extends_def nth_append)

lemma in_range_new: "heap_in_range h \<Longrightarrow> order_in_range b \<Longrightarrow> heap_in_range (h @ [b])"
  by (simp add: heap_in_range_def)

lemma invoke_extends:
  assumes "benign m"
  shows "extends h (snd (invoke r m h))"
proof (cases "lookup h r")
  case None
  then show ?thesis by (simp add: invoke_def extends_refl)
next
  case (Some b)
  have "set (singleStack b) \<subseteq> set (singleStack (snd (m b)))"
    using assms by (simp add: benign_def)
  moreover have "h ! r = b" "r < length h"
    using Some by (simp_all add: lookup_def split: if_splits)
  ultimately show ?thesis
    by (simp add: invoke_valid [OF Some] extends_def nth_list_update)
qed

lemma invoke_in_range:
  assumes "benign m" and "heap_in_range h"
  shows "heap_in_range (snd (invoke r m h))"
proof (cases "lookup h r")
  case None
  then show ?thesis using assms(2) by (simp add: invoke_def)
next
  case (Some b)
  have at: "h ! r = b" "r < length h"
    using Some by (simp_all add: lookup_def split: if_splits)
  then have "order_in_range b"
    using assms(2) by (auto simp: heap_in_range_def list_all_length)
  then have "order_in_range (snd (m b))" using assms(1) by (simp add: benign_def)
  then show ?thesis
    using assms(2) at
    by (auto simp: invoke_valid [OF Some] heap_in_range_def list_all_length nth_list_update)
qed

lemma snd_fluent: "snd (fluent r m h) = snd (invoke r m h)"
  by (simp add: fluent_def split: prod.splits sum.splits)

lemma seed_extends: "extends h (snd (seed f h))"
  by (simp add: seed_new extends_new)

lemma rank_bounds: "0 \<le> rank f \<and> rank f \<le> 5"
  by (cases f) simp_all

lemma seed_in_range: "heap_in_range h \<Longrightarrow> heap_in_range (snd (seed f h))"
  using rank_bounds [of f] by (simp add: seed_new in_range_new order_in_range_def)

lemma facade_combine_snd:
  "snd (cssSelectorBuilder_combine a c b h) = snd (invoke a stringify h) \<or>
   snd (cssSelectorBuilder_combine a c b h) =
     snd (invoke b stringify (snd (invoke a stringify h))) \<or>
   (\<exists>s. snd (cssSelectorBuilder_combine a c b h) =
     snd (invoke b stringify (snd (invoke a stringify h))) @
       [\<lparr>stack = [s], singleStack = [], order = None\<rparr>])"
  by (auto simp: cssSelectorBuilder_combine_def new_CurrentBuilder_def
      CurrentBuilder_constructor_def split: prod.splits sum.splits)

lemma instance_combine_snd:
  "snd (combine x a c b h) = h \<or>
   snd (combine x a c b h) = snd (invoke a stringify h) \<or>
   snd (combine x a c b h) = snd (invoke b stringify (snd (invoke a stringify h))) \<or>
   (\<exists>s. snd (combine x a c b h) =
     snd (invoke x (push s) (snd (invoke b stringify (snd (invoke a stringify h))))))"
  by (auto simp: combine_def snd_fluent split: prod.splits sum.splits option.splits)

lemma api_step_extends: "api_step h h' \<Longrightarrow> extends h h'"
proof (induction rule: api_step.induct)
  case (new_fragment h f)
  show ?case by (rule seed_extends)
next
  case (new_combined h a c b)
  have e1: "extends h (snd (invoke a stringify h))"
    by (rule invoke_extends [OF benign_stringify])
  have e2: "extends h (snd (invoke b stringify (snd (invoke a stringify h))))"
    by (rule extends_trans [OF e1 invoke_extends [OF benign_stringify]])
  have e3: "extends h (snd (invoke b stringify (snd (invoke a stringify h))) @ [n])" for n
    by (rule extends_trans [OF e2 extends_new])
  show ?case using facade_combine_snd [of a c b h] e1 e2 e3 by auto
next
  case (call_fragment h r f)
  show ?case by (simp add: snd_fluent invoke_extends benign_append_fragment)
next
  case (call_stringify h r)
  show ?case by (rule invoke_extends [OF benign_stringify])
next
  case (call_combine h x a c b)
  have e1: "extends h (snd (invoke a stringify h))"
    by (rule invoke_extends [OF benign_stringify])
  have e2: "extends h (snd (invoke b stringify (snd (invoke a stringify h))))"
    by (rule extends_trans [OF e1 invoke_extends [OF benign_stringify]])
  have e3: "extends h (snd (invoke x (push s)
              (snd (invoke b stringify (snd (invoke a stringify h))))))" for s
    by (rule extends_trans [OF e2 invoke_extends [OF benign_push]])
  show ?case using instance_combine_snd [of x a c b h] e1 e2 e3 extends_refl [of h] by auto
qed

lemma api_step_in_range: "api_step h h' \<Longrightarrow> heap_in_range h \<Longrightarrow> heap_in_range h'"
proof (induction rule: api_step.induct)
  case (new_fragment h f)
  then show ?case by (rule seed_in_range)
next
  case (new_combined h a c b)
  have i1: "heap_in_range (snd (invoke a stringify h))"
    using new_combined by (rule invoke_in_range [OF benign_stringify])
  have i2: "heap_in_range (snd (invoke b stringify (snd (invoke a stringify h))))"
    using i1 by (rule invoke_in_range [OF benign_stringify])
  have i3: "heap_in_range (snd (invoke b stringify (snd (invoke a stringify h))) @
              [\<lparr>stack = [s], singleStack = [], order = None\<rparr>])" for s
    using i2 by (rule in_range_new) (simp add: order_in_range_def)
  show ?case using facade_combine_snd [of a c b h] i1 i2 i3 by auto
next
  case (call_fragment h r f)
  then show ?case by (simp add: snd_fluent invoke_in_range benign_append_fragment)
next
  case (call_stringify h r)
  then show ?case by (rule invoke_in_range [OF benign_stringify])
next
  case (call_combine h x a c b)
  have i1: "heap_in_range (snd (invoke a stringify h))"
    using call_combine by (rule invoke_in_range [OF benign_stringify])
  have i2: "heap_in_range (snd (invoke b stringify (snd (invoke a stringify h))))"
    using i1 by (rule invoke_in_range [OF benign_stringify])
  have i3: "heap_in_range (snd (invoke x (push s)
              (snd (invoke b stringify (snd (invoke a stringify h))))))" for s
    using i2 by (rule invoke_in_range [OF benign_push])
  show ?case using instance_combine_snd [of x a c b h] call_combine i1 i2 i3 by auto
qed

lemma api_steps_extends: "api_step\<^sup>*\<^sup>* h h' \<Longrightarrow> extends h h'"
  by (induction rule: rtranclp_induct) (auto intro: extends_refl extends_trans api_step_extends)

lemma api_steps_in_range: "api_step\<^sup>*\<^sup>* h h' \<Longrightarrow> heap_in_range h \<Longrightarrow> heap_in_range h'"
  by (induction rule: rtranclp_induct) (auto intro: api_step_in_range)

lemma reachable_in_range: "reachable h \<Longrightarrow> heap_in_range h"
  unfolding reachable_def by (erule api_steps_in_range) (simp add: heap_in_range_def)

lemma extends_keeps_tag:
  assumes "extends h h'" and "lookup h r = Some b" and "k \<in> set (singleStack b)"
  shows "\<exists>b'. lookup h' r = Some b' \<and> k \<in> set (singleStack b')"
proof -
  have "r < length h" "h ! r = b" using assms(2) by (simp_all add: lookup_def split: if_splits)
  with assms(1,3) show ?thesis by (auto simp: extends_def lookup_def)
qed

lemma successful_append_records:
  assumes "seen_once f" and "append_fragment f b = (Inr u, b')"
  shows "kind_name f \<in> set (singleStack b')"
proof (cases "kind_name f \<in> set (singleStack b)")
  case True
  have "set (singleStack b) \<subseteq> set (singleStack (snd (append_fragment f b)))"
    using benign_append_fragment [of f] by (simp add: benign_def)
  with True assms(2) show ?thesis by auto
next
  case False
  show ?thesis
  proof (cases "js_less (rank f) (order b)")
    case True
    then have "fst (append_fragment f b) = Inl OutOfOrderError"
      using False by (intro append_fragment_low_fresh(1)) simp_all
    with assms(2) show ?thesis by simp
  next
    case low: False
    then show ?thesis
      using False assms by (auto simp: append_fragment_accepts)
  qed
qed

subsection \<open>A second element, id or pseudo-element\<close>

text \<open>
  Claim C2. Start from any store the interface can produce. Let the builder \<open>r\<close> record a
  fragment \<open>f\<close> that is an element, an id or a pseudo-element, either as the seed of a
  facade call or by a fluent call that succeeds. Then, after any number of further calls
  of the interface on any builders (appends that succeed or throw, \<^verbatim>\<open>stringify\<close>, both
  \<^verbatim>\<open>combine\<close> functions), appending a fragment of the same kind to \<open>r\<close> throws
  DuplicateFragmentError.
\<close>

theorem duplicate_fragment_rejected:
  assumes "reachable h0"
    and "seen_once f"
    and "seed f h0 = (r, h1) \<or> fluent r (append_fragment f) h0 = (Inr r, h1)"
    and "api_step\<^sup>*\<^sup>* h1 h2"
    and "kind_name f' = kind_name f"
  shows "fst (fluent r (append_fragment f') h2) = Inl DuplicateFragmentError"
proof -
  have step: "api_step h0 h1"
    using assms(3) api_step.new_fragment [of h0 f] api_step.call_fragment [of h0 r f] by auto
  have recorded: "\<exists>b1. lookup h1 r = Some b1 \<and> kind_name f \<in> set (singleStack b1)"
    using assms(3)
  proof
    assume "seed f h0 = (r, h1)"
    then show ?thesis by (auto simp: seed_new lookup_new)
  next
    assume ok: "fluent r (append_fragment f) h0 = (Inr r, h1)"
    show ?thesis
    proof (cases "lookup h0 r")
      case None
      with ok show ?thesis by (simp add: fluent_def invoke_def)
    next
      case (Some b0)
      obtain res b1 where app: "append_fragment f b0 = (res, b1)"
        by (cases "append_fragment f b0")
      with ok Some obtain u where res: "res = Inr u" and h1: "h1 = h0[r := b1]"
        by (cases res) (simp_all add: fluent_valid)
      have "kind_name f \<in> set (singleStack b1)"
        using assms(2) app res by (auto intro: successful_append_records)
      moreover have "lookup h1 r = Some b1"
        using h1 lookup_valid [OF Some] by (simp add: lookup_update)
      ultimately show ?thesis by blast
    qed
  qed
  then obtain b1 where b1: "lookup h1 r = Some b1" "kind_name f \<in> set (singleStack b1)"
    by blast
  obtain b2 where b2: "lookup h2 r = Some b2" "kind_name f \<in> set (singleStack b2)"
    using extends_keeps_tag [OF api_steps_extends [OF assms(4)] b1] by blast
  have "reachable h2"
    using assms(1) step assms(4) by (simp add: reachable_def)
  then have "heap_in_range h2" by (rule reachable_in_range)
  then have range: "order_in_range b2"
    using b2(1) by (auto simp: heap_in_range_def list_all_length lookup_def split: if_splits)
  have once: "seen_once f'" using assms(2,5) by (cases f; cases f') simp_all
  have "fst (append_fragment f' b2) = Inl DuplicateFragmentError"
    using append_fragment_duplicate [OF once _ range] b2(2) assms(5) by simp
  then show ?thesis by (simp add: fluent_valid [OF b2(1)])
qed

theorem duplicate_fragment_rejected_witness:
  "reachable [] \<and>
   seen_once (Element ''div'') \<and>
   seed (Element ''div'') [] = (0, snd (cssSelectorBuilder_element ''div'' [])) \<and>
   api_step\<^sup>*\<^sup>* (snd (cssSelectorBuilder_element ''div'' [])) div_main_main \<and>
   kind_name (Element ''x'') = kind_name (Element ''div'') \<and>
   fst (fluent 0 (append_fragment (Element ''x'')) div_main_main) = Inl DuplicateFragmentError"
proof -
  let ?h1 = "snd (cssSelectorBuilder_element ''div'' [])"
  let ?ha = "snd (fluent 0 (append_fragment (Id ''main'')) ?h1)"
  let ?hb = "snd (fluent 0 (append_fragment (Class ''main'')) ?ha)"
  have start: "reachable []" by (simp add: reachable_def)
  have once: "seen_once (Element ''div'')" by simp
  have seeded: "seed (Element ''div'') [] = (0, ?h1)"
    by (simp add: cssSelectorBuilder_element_def new_CurrentBuilder_def)
  have "div_main_main = ?hb" by code_simp
  moreover have "api_step ?h1 ?ha" by (rule api_step.call_fragment)
  moreover have "api_step ?ha ?hb" by (rule api_step.call_fragment)
  ultimately have between: "api_step\<^sup>*\<^sup>* ?h1 div_main_main" by simp
  have same: "kind_name (Element ''x'') = kind_name (Element ''div'')" by simp
  show ?thesis
    using start once seeded between same
      duplicate_fragment_rejected [OF start once disjI1 [OF seeded] between same]
    by simp
qed

section \<open>The JSON round trip\<close>

subsection \<open>Digits and numbers\<close>











lemma delimited_cases:
  assumes "delimited r"
  obtains "r = []" | d r' where "r = d # r'" "d = CHR '','' \<or> d = CHR '']'' \<or> d = CHR ''}''"
  using assms by (cases r) (auto simp: delimited_def)






subsection \<open>Strings\<close>




lemma parse_chars_short_escape:
  "e \<noteq> CHR ''u'' \<Longrightarrow> unescape e = Some c \<Longrightarrow>
     parse_chars (CHR 0x5C # e # rest) = cons_char c (parse_chars rest)"
  by simp




subsection \<open>Whitespace and first characters\<close>


lemma skip_ws_delimited: "delimited r \<Longrightarrow> skip_ws r = r"
  by (auto elim!: delimited_cases simp: skip_ws_def is_ws_def)





subsection \<open>Objects\<close>




subsection \<open>Values\<close>











subsection \<open>The round trip\<close>



end
